theory Spec2Isabelle
  imports Main
begin

unbundle bit_operations_syntax

section \<open>The Spleen font generator (tools/gen\_spleen.py)\<close>

text \<open>
  The generator reads a bitmap font, either the legacy DOS assembly table or a BDF file,
  and writes a C table of 256 glyphs of 16 row bytes. This theory embeds the script
  function by function and proves the properties its specification states.

  Python's \<open>str\<close> is modelled by \<open>string\<close>: a text is a list of characters whose code
  points lie below 256. Python's unbounded \<open>int\<close> is \<open>int\<close>. A file system is a map from
  paths to what is there: a text file, a directory, or a file whose bytes are no text.
  \<open>None\<close> is a path at which \<open>exists()\<close> is false. An exception is an \<open>error\<close>, and a
  function that may raise returns a sum whose left side is the exception.
\<close>

subsection \<open>String builtins\<close>

text \<open>\<open>str.isspace\<close> on one character, which is also the class \<open>\s\<close> of \<open>re\<close>.\<close>

definition isspace :: "char \<Rightarrow> bool" where
  "isspace c = (c \<in> set [CHR 0x09, CHR 0x0A, CHR 0x0B, CHR 0x0C, CHR 0x0D, CHR 0x1C,
     CHR 0x1D, CHR 0x1E, CHR 0x1F, CHR 0x20, CHR 0x85, CHR 0xA0])"

text \<open>The characters at which \<open>str.splitlines\<close> ends a line.\<close>

definition is_linebreak :: "char \<Rightarrow> bool" where
  "is_linebreak c = (c \<in> set [CHR 0x0A, CHR 0x0B, CHR 0x0C, CHR 0x0D, CHR 0x1C,
     CHR 0x1D, CHR 0x1E, CHR 0x85])"

text \<open>
  \<open>str.splitlines()\<close>: the text is cut at every line boundary, a carriage return
  followed by a line feed is one boundary, and no empty line is added after a final
  boundary. The first argument is the current line, reversed.
\<close>

fun splitlines_from :: "string \<Rightarrow> string \<Rightarrow> string list" where
  "splitlines_from acc [] = (if acc = [] then [] else [rev acc])"
| "splitlines_from acc (c # cs) =
     (if c = CHR 0x0D \<and> cs \<noteq> [] \<and> hd cs = CHR 0x0A then rev acc # splitlines_from [] (tl cs)
      else if is_linebreak c then rev acc # splitlines_from [] cs
      else splitlines_from (c # acc) cs)"

definition splitlines :: "string \<Rightarrow> string list" where
  "splitlines s = splitlines_from [] s"

text \<open>\<open>str.strip()\<close> and \<open>str.startswith(prefix)\<close>.\<close>

definition strip :: "string \<Rightarrow> string" where
  "strip s = rev (dropWhile isspace (rev (dropWhile isspace s)))"

definition startswith :: "string \<Rightarrow> string \<Rightarrow> bool" where
  "startswith s p = (take (length p) s = p)"

text \<open>\<open>str.split()\<close> without arguments: the maximal runs of non-space characters.\<close>

fun split_from :: "string \<Rightarrow> string \<Rightarrow> string list" where
  "split_from acc [] = (if acc = [] then [] else [rev acc])"
| "split_from acc (c # cs) =
     (if isspace c then (if acc = [] then split_from [] cs else rev acc # split_from [] cs)
      else split_from (c # acc) cs)"

definition py_split :: "string \<Rightarrow> string list" where
  "py_split s = split_from [] s"

text \<open>
  The value of a digit in \<open>int(s, base)\<close>, and the number a string of digits denotes,
  most significant digit first.
\<close>

definition digit_val :: "char \<Rightarrow> int" where
  "digit_val c =
     (let n = (of_char c :: nat) in
      if 48 \<le> n \<and> n \<le> 57 then int n - 48
      else if 97 \<le> n \<and> n \<le> 102 then int n - 87
      else if 65 \<le> n \<and> n \<le> 70 then int n - 55
      else 0)"

definition int_of_digits :: "int \<Rightarrow> string \<Rightarrow> int" where
  "int_of_digits base s = foldl (\<lambda>a c. a * base + digit_val c) 0 s"

definition isdigit :: "char \<Rightarrow> bool" where
  "isdigit c = (48 \<le> (of_char c :: nat) \<and> (of_char c :: nat) \<le> 57)"

text \<open>
  The digits of a decimal literal as \<open>int(s)\<close> accepts them: at least one digit, and
  single underscores between digits only.
\<close>

fun int_body :: "string \<Rightarrow> bool" where
  "int_body [] = False"
| "int_body [c] = isdigit c"
| "int_body (c # d # r) =
     (if isdigit c then (if d = CHR ''_'' then int_body r else int_body (d # r)) else False)"

text \<open>
  \<open>int(s)\<close> in base ten: surrounding whitespace is dropped, one sign may precede the
  digits, and a literal of more than 4300 digits is refused (the interpreter's default
  limit). \<open>None\<close> stands for the \<open>ValueError\<close>.
\<close>

definition py_int :: "string \<Rightarrow> int option" where
  "py_int s =
     (let t = strip s;
          neg = (t \<noteq> [] \<and> hd t = CHR ''-'');
          body = (if t \<noteq> [] \<and> (hd t = CHR ''-'' \<or> hd t = CHR ''+'') then tl t else t);
          ds = filter (\<lambda>c. c \<noteq> CHR ''_'') body
      in if \<not> int_body body \<or> length ds > 4300 then None
         else Some (if neg then - int_of_digits 10 ds else int_of_digits 10 ds))"

subsection \<open>The legacy assembly parser\<close>

definition ASM_LABEL :: string where
  "ASM_LABEL = ''spleen:''"

text \<open>
  \<open>ROW_RE.match(line)\<close> for the pattern \<open>^\s*db\s*([01]{8})b\<close>: the result is group 1,
  the eight binary digits, or \<open>None\<close> when the line does not match. Neither \<open>d\<close> nor a
  binary digit is whitespace, so each \<open>\s*\<close> takes the whole run of whitespace.
\<close>

definition ROW_RE_match :: "string \<Rightarrow> string option" where
  "ROW_RE_match line =
     (let r1 = dropWhile isspace line in
      if startswith r1 ''db'' then
        (let r2 = dropWhile isspace (drop 2 r1) in
         if 9 \<le> length r2 \<and> list_all (\<lambda>c. c = CHR ''0'' \<or> c = CHR ''1'') (take 8 r2)
              \<and> r2 ! 8 = CHR ''b''
         then Some (take 8 r2) else None)
      else None)"

type_synonym glyph = "int list"

text \<open>
  The loop of \<open>parse_asm\<close> over the lines of the file, with its two variables
  \<open>in_table\<close> and \<open>rows\<close>; the loop is left when the 4096th row is appended.
\<close>

fun asm_loop :: "bool \<Rightarrow> int list \<Rightarrow> string list \<Rightarrow> int list" where
  "asm_loop in_table rows [] = rows"
| "asm_loop in_table rows (line # ls) =
     (if \<not> in_table then
        (if startswith (strip line) ASM_LABEL then asm_loop True rows ls
         else asm_loop in_table rows ls)
      else
        (case ROW_RE_match line of
           Some g \<Rightarrow>
             (let rows' = rows @ [int_of_digits 2 g] in
              if length rows' = 256 * 16 then rows' else asm_loop in_table rows' ls)
         | None \<Rightarrow> asm_loop in_table rows ls))"

text \<open>The slice \<open>xs[a:b]\<close> for indices that are not negative.\<close>

definition slice :: "'a list \<Rightarrow> nat \<Rightarrow> nat \<Rightarrow> 'a list" where
  "slice xs a b = take (b - a) (drop a xs)"

datatype path = PurePath (root: string) (parts: "string list")

datatype error =
    FileNotFoundError path
  | IsADirectoryError path
  | UnicodeDecodeError path
  | PermissionError path
  | SystemExit string

datatype entry = TextFile string | Directory | Undecodable

type_synonym fs = "path \<Rightarrow> entry option"

text \<open>
  \<open>path.exists()\<close> and \<open>path.read_text()\<close>. Reading raises when nothing is at the path,
  when a directory is, and when the bytes of the file cannot be decoded.
\<close>

definition path_exists :: "fs \<Rightarrow> path \<Rightarrow> bool" where
  "path_exists files p = (files p \<noteq> None)"

definition read_text :: "fs \<Rightarrow> path \<Rightarrow> error + string" where
  "read_text files p =
     (case files p of
        None \<Rightarrow> Inl (FileNotFoundError p)
      | Some (TextFile content) \<Rightarrow> Inr content
      | Some Directory \<Rightarrow> Inl (IsADirectoryError p)
      | Some Undecodable \<Rightarrow> Inl (UnicodeDecodeError p))"

text \<open>
  \<open>parse_asm\<close>. The result \<open>Inr None\<close> is the value \<open>None\<close> the function returns; the
  call of \<open>read_text\<close> is not guarded, so its exception leaves the function.
\<close>

definition parse_asm :: "fs \<Rightarrow> path \<Rightarrow> error + glyph list option" where
  "parse_asm files p =
     (if \<not> path_exists files p then Inr None
      else
        (case read_text files p of
           Inl e \<Rightarrow> Inl e
         | Inr content \<Rightarrow>
             (let rows = asm_loop False [] (splitlines content) in
              if length rows \<noteq> 256 * 16 then Inr None
              else Inr (Some (map (\<lambda>i. slice rows (i * 16) ((i + 1) * 16)) [0..<256])))))"

subsection \<open>The BDF parser\<close>

text \<open>The local variables of \<open>parse_bdf\<close>; \<open>glyphs\<close> is the dictionary it returns.\<close>

record bdf_state =
  glyphs :: "int \<Rightarrow> glyph option"
  enc :: "int option"
  collecting :: bool
  bitmap_rows :: "string list"

definition bdf_init :: bdf_state where
  "bdf_init = \<lparr>glyphs = Map.empty, enc = None, collecting = False, bitmap_rows = []\<rparr>"

text \<open>\<open>re.fullmatch(r'[0-9A-Fa-f]{2}', line)\<close> as a truth value.\<close>

definition is_hex :: "char \<Rightarrow> bool" where
  "is_hex c = (c \<in> set ''0123456789ABCDEFabcdef'')"

definition hex2_fullmatch :: "string \<Rightarrow> bool" where
  "hex2_fullmatch line = (length line = 2 \<and> list_all is_hex line)"

text \<open>The loop \<open>while len(rows) < 16: rows.append(0)\<close>.\<close>

function pad_rows :: "int list \<Rightarrow> int list" where
  "pad_rows rows = (if length rows < 16 then pad_rows (rows @ [0]) else rows)"
  by pat_completeness auto
termination
  by (relation "measure (\<lambda>rows. 16 - length rows)") auto

text \<open>
  \<open>int(line.split()[1])\<close> under \<open>try\<close>: an \<open>IndexError\<close> or a \<open>ValueError\<close> leaves
  \<open>None\<close>.
\<close>

definition parse_encoding :: "string \<Rightarrow> int option" where
  "parse_encoding line =
     (let toks = py_split line in if length toks \<le> 1 then None else py_int (toks ! 1))"

text \<open>One pass of the loop body of \<open>parse_bdf\<close>, for the line \<open>raw\<close>.\<close>

definition bdf_step :: "bdf_state \<Rightarrow> string \<Rightarrow> bdf_state" where
  "bdf_step s raw =
     (let line = strip raw in
      if startswith line ''ENCODING '' then s\<lparr>enc := parse_encoding line\<rparr>
      else if line = ''BITMAP'' then s\<lparr>collecting := True, bitmap_rows := []\<rparr>
      else if line = ''ENDCHAR'' then
        (let s' =
           (if enc s \<noteq> None \<and> collecting s then
              (let rows = pad_rows (map (\<lambda>r. int_of_digits 16 r AND 0xFF) (take 16 (bitmap_rows s)))
               in s\<lparr>glyphs := (glyphs s)(the (enc s) \<mapsto> rows)\<rparr>)
            else s)
         in s'\<lparr>enc := None, collecting := False, bitmap_rows := []\<rparr>)
      else if collecting s then
        (if hex2_fullmatch line then s\<lparr>bitmap_rows := bitmap_rows s @ [line]\<rparr> else s)
      else s)"

definition bdf_run :: "string list \<Rightarrow> bdf_state" where
  "bdf_run ls = foldl bdf_step bdf_init ls"

definition parse_bdf :: "fs \<Rightarrow> path \<Rightarrow> error + (int \<Rightarrow> glyph option)" where
  "parse_bdf files p =
     (case read_text files p of
        Inl e \<Rightarrow> Inl e
      | Inr content \<Rightarrow> Inr (glyphs (bdf_run (splitlines content))))"

subsection \<open>Paths\<close>

text \<open>
  \<open>pathlib.Path(s)\<close> on a POSIX host: the root is one slash, or two when the string
  starts with exactly two, and the parts are the components between slashes that are
  neither empty nor a single dot.
\<close>

fun split_on_from :: "char \<Rightarrow> string \<Rightarrow> string \<Rightarrow> string list" where
  "split_on_from sep acc [] = [rev acc]"
| "split_on_from sep acc (c # cs) =
     (if c = sep then rev acc # split_on_from sep [] cs else split_on_from sep (c # acc) cs)"

definition Path :: "string \<Rightarrow> path" where
  "Path s =
     (let (r, rel) =
        (if take 1 s \<noteq> ''/'' then ([], s)
         else if take 1 (drop 1 s) \<noteq> ''/'' \<or> take 1 (drop 2 s) = ''/'' then (''/'', drop 1 s)
         else (''//'', drop 2 s))
      in PurePath r (filter (\<lambda>x. x \<noteq> [] \<and> x \<noteq> ''.'') (split_on_from CHR ''/'' [] rel)))"

fun join :: "string \<Rightarrow> string list \<Rightarrow> string" where
  "join sep [] = []"
| "join sep [x] = x"
| "join sep (x # y # ys) = x @ sep @ join sep (y # ys)"

definition str_path :: "path \<Rightarrow> string" where
  "str_path p = (let s = root p @ join ''/'' (parts p) in if s = [] then ''.'' else s)"

definition name :: "path \<Rightarrow> string" where
  "name p = (if parts p = [] then [] else last (parts p))"

text \<open>\<open>str.rfind(c)\<close>, with \<open>None\<close> for the result -1.\<close>

definition rfind :: "string \<Rightarrow> char \<Rightarrow> nat option" where
  "rfind s c =
     (if c \<in> set s then Some (length s - 1 - length (takeWhile (\<lambda>x. x \<noteq> c) (rev s))) else None)"

definition suffix :: "path \<Rightarrow> string" where
  "suffix p =
     (let n = name p in
      case rfind n CHR ''.'' of
        None \<Rightarrow> []
      | Some i \<Rightarrow> if 0 < i \<and> i + 1 < length n then drop i n else [])"

definition lower_char :: "char \<Rightarrow> char" where
  "lower_char c =
     (let n = (of_char c :: nat) in
      if (65 \<le> n \<and> n \<le> 90) \<or> (192 \<le> n \<and> n \<le> 222 \<and> n \<noteq> 215) then char_of (n + 32) else c)"

definition lower :: "string \<Rightarrow> string" where
  "lower s = map lower_char s"

subsection \<open>Building the table\<close>

text \<open>The truth value of \<open>asm_fallback\<close>: neither \<open>None\<close> nor an empty list.\<close>

definition truthy :: "glyph list option \<Rightarrow> bool" where
  "truthy t = (case t of None \<Rightarrow> False | Some xs \<Rightarrow> xs \<noteq> [])"

text \<open>
  The body of the loop \<open>for cp in range(256)\<close>: the glyph appended for \<open>cp\<close>.
\<close>

definition table_entry :: "(int \<Rightarrow> glyph option) \<Rightarrow> glyph list option \<Rightarrow> nat \<Rightarrow> glyph" where
  "table_entry bdf_glyphs asm_fallback cp =
     (case bdf_glyphs (int cp) of
        Some g \<Rightarrow> g
      | None \<Rightarrow>
          (if truthy asm_fallback \<and> cp < length (the asm_fallback) then the asm_fallback ! cp
           else replicate 16 0))"

text \<open>
  \<open>build_glyph_table\<close>. A path object is always true, so with a BDF source the fallback
  is parsed on every run. An exception of a parser leaves the function.
\<close>

definition build_glyph_table :: "fs \<Rightarrow> path \<Rightarrow> path \<Rightarrow> error + (glyph list \<times> string)" where
  "build_glyph_table files src_path maybe_asm =
     (let ext = lower (suffix src_path) in
      if ext = ''.bdf'' then
        (case parse_bdf files src_path of
           Inl e \<Rightarrow> Inl e
         | Inr bdf_glyphs \<Rightarrow>
             (case parse_asm files maybe_asm of
                Inl e \<Rightarrow> Inl e
              | Inr asm_fallback \<Rightarrow>
                  (let table = map (table_entry bdf_glyphs asm_fallback) [0..<256]
                   in Inr (table, str_path src_path @ '' (BDF)''
                             @ (if truthy asm_fallback then '' + ASM fallback'' else [])))))
      else if ext = ''.asm'' then
        (case parse_asm files src_path of
           Inl e \<Rightarrow> Inl e
         | Inr None \<Rightarrow> Inl (SystemExit ''Failed to parse ASM font table'')
         | Inr (Some table) \<Rightarrow> Inr (table, str_path src_path @ '' (ASM)''))
      else Inl (SystemExit (''Unsupported source extension: '' @ ext)))"

subsection \<open>Writing the C file\<close>

definition HEADER :: "string \<Rightarrow> string" where
  "HEADER source =
     ''/* Auto-generated Spleen 8x16 font table\<newline> * Source: '' @ source
     @ ''\<newline> * Generation: tools/gen_spleen.py (BSD 2-Clause upstream font)\<newline>''
     @ '' * Do not edit manually. */\<newline>''"

text \<open>The format \<open>02X\<close> of an integer: upper-case hexadecimal, padded to two digits.\<close>

fun hex_digits :: "nat \<Rightarrow> string" where
  "hex_digits n =
     (if n < 16 then [''0123456789ABCDEF'' ! n]
      else hex_digits (n div 16) @ [''0123456789ABCDEF'' ! (n mod 16)])"

definition fmt_02X :: "int \<Rightarrow> string" where
  "fmt_02X n =
     (if n < 0 then CHR ''-'' # hex_digits (nat (- n))
      else (let h = hex_digits (nat n) in if length h < 2 then CHR ''0'' # h else h))"

definition glyph_line :: "nat \<times> glyph \<Rightarrow> string" where
  "glyph_line ig =
     ''    /* 0x'' @ fmt_02X (int (fst ig)) @ '' */ {''
     @ join '', '' (map (\<lambda>b. ''0x'' @ fmt_02X b) (snd ig)) @ ''},\<newline>''"

text \<open>The text \<open>emit_c\<close> writes to the output file, in the order of its writes.\<close>

definition emit_text :: "glyph list \<Rightarrow> string \<Rightarrow> string" where
  "emit_text gs source_desc =
     HEADER source_desc
     @ ''#include '' @ [CHR 0x22] @ ''../aurora.h'' @ [CHR 0x22] @ ''\<newline>''
     @ ''#include '' @ [CHR 0x22] @ ''../include/font.h'' @ [CHR 0x22] @ ''\<newline>\<newline>''
     @ ''const unsigned char g_Spleen8x16[AURORA_FONT_GLYPHS][AURORA_FONT_HEIGHT] = {\<newline>''
     @ concat (map glyph_line (enumerate 0 gs))
     @ ''};\<newline>BOOL FontInitialize(void){ return TRUE; }\<newline>''"

text \<open>
  The world a run starts in: the file system, and for every path the exception that
  opening it for writing raises, if it raises one (the path is a directory, a directory
  above it is missing, or permission is denied).
\<close>

record world =
  files_of :: fs
  open_error :: "path \<Rightarrow> error option"

text \<open>
  \<open>emit_c\<close>: the output file is opened first; when that raises nothing is written,
  otherwise the file holds the text afterwards.
\<close>

definition emit_c :: "world \<Rightarrow> glyph list \<Rightarrow> path \<Rightarrow> string \<Rightarrow> error + fs" where
  "emit_c w gs out_path source_desc =
     (case open_error w out_path of
        Some e \<Rightarrow> Inl e
      | None \<Rightarrow> Inr ((files_of w)(out_path \<mapsto> TextFile (emit_text gs source_desc))))"

subsection \<open>The program\<close>

text \<open>
  What a run leaves behind: the exit status, the text printed on standard output, the
  exception that ended the run if one did (the interpreter prints the message of a
  \<open>SystemExit\<close>, or a traceback, on standard error, and the status is 1), and the file
  system.
\<close>

record outcome =
  status :: nat
  stdout :: string
  raised :: "error option"
  files_after :: fs

definition fallback_path :: "string list \<Rightarrow> path" where
  "fallback_path argv =
     (if length argv > 3 then Path (argv ! 3) else Path ''external/spleen/dos/spleen.asm'')"

definition main :: "string list \<Rightarrow> world \<Rightarrow> outcome" where
  "main argv w =
     (if length argv < 3 then
        \<lparr>status = 1,
         stdout = ''Usage: gen_spleen.py <spleen.{asm|bdf}> <out.c> [fallback_asm]\<newline>'',
         raised = None, files_after = files_of w\<rparr>
      else
        (let src = Path (argv ! 1); out = Path (argv ! 2); fallback = fallback_path argv in
         case build_glyph_table (files_of w) src fallback of
           Inl e \<Rightarrow> \<lparr>status = 1, stdout = [], raised = Some e, files_after = files_of w\<rparr>
         | Inr (gs, desc) \<Rightarrow>
             (case emit_c w gs out desc of
                Inl e \<Rightarrow> \<lparr>status = 1, stdout = [], raised = Some e, files_after = files_of w\<rparr>
              | Inr files' \<Rightarrow> \<lparr>status = 0, stdout = [], raised = None, files_after = files'\<rparr>)))"

subsection \<open>What the parsers are specified to read\<close>

text \<open>
  The lines after the first line that, stripped, starts with the label (none when no
  line does), and the values of the lines of a list that match the row pattern, in order.
\<close>

definition has_label :: "string list \<Rightarrow> bool" where
  "has_label ls = list_ex (\<lambda>l. startswith (strip l) ASM_LABEL) ls"

definition after_label :: "string list \<Rightarrow> string list" where
  "after_label ls = drop 1 (dropWhile (\<lambda>l. \<not> startswith (strip l) ASM_LABEL) ls)"

definition matched_rows :: "string list \<Rightarrow> int list" where
  "matched_rows ls = map (int_of_digits 2) (List.map_filter ROW_RE_match ls)"

text \<open>
  The glyph a definition with the collected row lines \<open>rows\<close> stands for: the bytes of
  the first 16 rows, then zeros up to 16 bytes.
\<close>

definition glyph_of_rows :: "string list \<Rightarrow> glyph" where
  "glyph_of_rows rows =
     map (\<lambda>r. int_of_digits 16 r AND 0xFF) (take 16 rows) @ replicate (16 - length rows) 0"

text \<open>The lines the BDF parser treats as keywords, after stripping.\<close>

definition is_directive :: "string \<Rightarrow> bool" where
  "is_directive line =
     (startswith line ''ENCODING '' \<or> line = ''BITMAP'' \<or> line = ''ENDCHAR'')"

text \<open>
  Where a definition stands after the lines \<open>ls\<close>, read off the lines alone. The open
  definition is made of the lines after the last \<open>ENDCHAR\<close> line. Its code point is what
  its last \<open>ENCODING\<close> line gives, its bitmap is open when it has a \<open>BITMAP\<close> line, and its
  rows are the lines of two hexadecimal digits after its last \<open>BITMAP\<close> line.
\<close>

definition after_last :: "('a \<Rightarrow> bool) \<Rightarrow> 'a list \<Rightarrow> 'a list" where
  "after_last P xs = rev (takeWhile (\<lambda>x. \<not> P x) (rev xs))"

definition since_endchar :: "string list \<Rightarrow> string list" where
  "since_endchar ls = after_last (\<lambda>l. strip l = ''ENDCHAR'') ls"

definition pending_code :: "string list \<Rightarrow> int option" where
  "pending_code ls =
     (let es = filter (\<lambda>l. startswith (strip l) ''ENCODING '') (since_endchar ls)
      in if es = [] then None else parse_encoding (strip (last es)))"

definition bitmap_open :: "string list \<Rightarrow> bool" where
  "bitmap_open ls = list_ex (\<lambda>l. strip l = ''BITMAP'') (since_endchar ls)"

definition collected_rows :: "string list \<Rightarrow> string list" where
  "collected_rows ls =
     filter hex2_fullmatch
       (map strip (after_last (\<lambda>l. strip l = ''BITMAP'') (since_endchar ls)))"

text \<open>
  Whether the source descriptor notes the fallback, and whether the table takes a glyph
  from the fallback: some code point below 256 is missing from the BDF dictionary while
  the fallback table has an entry for it.
\<close>

definition endswith :: "string \<Rightarrow> string \<Rightarrow> bool" where
  "endswith s p = startswith (rev s) (rev p)"

definition notes_fallback :: "string \<Rightarrow> bool" where
  "notes_fallback desc = endswith desc '' + ASM fallback''"

definition from_fallback :: "(int \<Rightarrow> glyph option) \<Rightarrow> glyph list option \<Rightarrow> nat \<Rightarrow> bool" where
  "from_fallback bdf_glyphs asm_fallback cp =
     (bdf_glyphs (int cp) = None \<and> truthy asm_fallback \<and> cp < length (the asm_fallback))"

definition fallback_contributed :: "(int \<Rightarrow> glyph option) \<Rightarrow> glyph list option \<Rightarrow> bool" where
  "fallback_contributed bdf_glyphs asm_fallback =
     list_ex (from_fallback bdf_glyphs asm_fallback) [0..<256]"

text \<open>Every glyph of a dictionary has 16 bytes.\<close>

definition glyphs_ok :: "(int \<Rightarrow> glyph option) \<Rightarrow> bool" where
  "glyphs_ok m = (\<forall>c g. m c = Some g \<longrightarrow> length g = 16)"

subsection \<open>Sample inputs\<close>

text \<open>
  The text whose lines are the given ones, each ended by a line feed. The samples are a
  legacy table of 4096 rows after the label, zero but for the 16 rows of glyph 5, with one
  more row after the table; a BDF text with one definition, for code point 65; a BDF
  text that defines every code point from 0 to 255 with an empty bitmap, the code points
  written with three digits; and a legacy table whose label stands in the middle of its
  line. The sample file system holds them, and a directory.
\<close>

definition unlines :: "string list \<Rightarrow> string" where
  "unlines ls = concat (map (\<lambda>l. l @ [CHR 0x0A]) ls)"

definition asm_sample_lines :: "string list" where
  "asm_sample_lines =
     ''spleen:'' # replicate 80 ''    db 00000000b'' @ replicate 16 ''    db 11111111b''
       @ replicate 4000 ''    db 00000000b'' @ [''    db 11111111b'']"

definition asm_sample_text :: string where
  "asm_sample_text = unlines asm_sample_lines"

definition bdf_A_lines :: "string list" where
  "bdf_A_lines = [''STARTCHAR A'', ''ENCODING 65'', ''BITMAP'', ''FF'', ''ENDCHAR'']"

definition bdf_A_text :: string where
  "bdf_A_text = unlines bdf_A_lines"

definition all_codes :: "string list" where
  "all_codes =
    [''000'', ''001'', ''002'', ''003'', ''004'', ''005'', ''006'', ''007'', ''008'',
     ''009'', ''010'', ''011'', ''012'', ''013'', ''014'', ''015'', ''016'', ''017'',
     ''018'', ''019'', ''020'', ''021'', ''022'', ''023'', ''024'', ''025'', ''026'',
     ''027'', ''028'', ''029'', ''030'', ''031'', ''032'', ''033'', ''034'', ''035'',
     ''036'', ''037'', ''038'', ''039'', ''040'', ''041'', ''042'', ''043'', ''044'',
     ''045'', ''046'', ''047'', ''048'', ''049'', ''050'', ''051'', ''052'', ''053'',
     ''054'', ''055'', ''056'', ''057'', ''058'', ''059'', ''060'', ''061'', ''062'',
     ''063'', ''064'', ''065'', ''066'', ''067'', ''068'', ''069'', ''070'', ''071'',
     ''072'', ''073'', ''074'', ''075'', ''076'', ''077'', ''078'', ''079'', ''080'',
     ''081'', ''082'', ''083'', ''084'', ''085'', ''086'', ''087'', ''088'', ''089'',
     ''090'', ''091'', ''092'', ''093'', ''094'', ''095'', ''096'', ''097'', ''098'',
     ''099'', ''100'', ''101'', ''102'', ''103'', ''104'', ''105'', ''106'', ''107'',
     ''108'', ''109'', ''110'', ''111'', ''112'', ''113'', ''114'', ''115'', ''116'',
     ''117'', ''118'', ''119'', ''120'', ''121'', ''122'', ''123'', ''124'', ''125'',
     ''126'', ''127'', ''128'', ''129'', ''130'', ''131'', ''132'', ''133'', ''134'',
     ''135'', ''136'', ''137'', ''138'', ''139'', ''140'', ''141'', ''142'', ''143'',
     ''144'', ''145'', ''146'', ''147'', ''148'', ''149'', ''150'', ''151'', ''152'',
     ''153'', ''154'', ''155'', ''156'', ''157'', ''158'', ''159'', ''160'', ''161'',
     ''162'', ''163'', ''164'', ''165'', ''166'', ''167'', ''168'', ''169'', ''170'',
     ''171'', ''172'', ''173'', ''174'', ''175'', ''176'', ''177'', ''178'', ''179'',
     ''180'', ''181'', ''182'', ''183'', ''184'', ''185'', ''186'', ''187'', ''188'',
     ''189'', ''190'', ''191'', ''192'', ''193'', ''194'', ''195'', ''196'', ''197'',
     ''198'', ''199'', ''200'', ''201'', ''202'', ''203'', ''204'', ''205'', ''206'',
     ''207'', ''208'', ''209'', ''210'', ''211'', ''212'', ''213'', ''214'', ''215'',
     ''216'', ''217'', ''218'', ''219'', ''220'', ''221'', ''222'', ''223'', ''224'',
     ''225'', ''226'', ''227'', ''228'', ''229'', ''230'', ''231'', ''232'', ''233'',
     ''234'', ''235'', ''236'', ''237'', ''238'', ''239'', ''240'', ''241'', ''242'',
     ''243'', ''244'', ''245'', ''246'', ''247'', ''248'', ''249'', ''250'', ''251'',
     ''252'', ''253'', ''254'', ''255'']"

definition bdf_char_lines :: "string \<Rightarrow> string list" where
  "bdf_char_lines code = [''ENCODING '' @ code, ''BITMAP'', ''ENDCHAR'']"

definition bdf_full_text :: string where
  "bdf_full_text = unlines (concat (map bdf_char_lines all_codes))"

definition midline_lines :: "string list" where
  "midline_lines = ''table spleen:'' # replicate 4096 ''    db 00000000b''"

definition sample_files :: fs where
  "sample_files =
     [Path ''spleen.bdf'' \<mapsto> TextFile bdf_full_text, Path ''a.bdf'' \<mapsto> TextFile bdf_A_text,
      Path ''spleen.asm'' \<mapsto> TextFile asm_sample_text,
      Path ''short.asm'' \<mapsto> TextFile (unlines [''spleen:'', '' db 00000000b'']),
      Path ''midline.asm'' \<mapsto> TextFile (unlines midline_lines),
      Path ''fonts'' \<mapsto> Directory]"

definition sample_world :: world where
  "sample_world =
     \<lparr>files_of = sample_files,
      open_error = (\<lambda>p. if p = Path ''fonts'' then Some (IsADirectoryError p) else None)\<rparr>"

section \<open>The legacy parser reads the rows after the label\<close>

lemma asm_loop_seek: "asm_loop False rows ls = asm_loop True rows (after_label ls)"
  by (induction ls) (simp_all add: after_label_def)

lemma matched_rows_Cons:
  "matched_rows (l # ls) =
     (case ROW_RE_match l of None \<Rightarrow> matched_rows ls
      | Some g \<Rightarrow> int_of_digits 2 g # matched_rows ls)"
  by (simp add: matched_rows_def List.map_filter_simps split: option.splits)

lemma matched_rows_Nil: "matched_rows [] = []"
  by (simp add: matched_rows_def List.map_filter_simps)

lemma asm_loop_collect:
  "length rows < 4096 \<Longrightarrow>
   asm_loop True rows ls = rows @ take (4096 - length rows) (matched_rows ls)"
proof (induction ls arbitrary: rows)
  case Nil
  then show ?case by (simp add: matched_rows_Nil)
next
  case (Cons l ls)
  show ?case
  proof (cases "ROW_RE_match l")
    case None
    then show ?thesis using Cons by (simp add: matched_rows_Cons)
  next
    case (Some g)
    show ?thesis
    proof (cases "length rows = 4095")
      case True
      then show ?thesis using Some by (simp add: matched_rows_Cons)
    next
      case False
      with Cons.prems have lt: "length (rows @ [int_of_digits 2 g]) < 4096" by simp
      have "4096 - length rows = Suc (4096 - length (rows @ [int_of_digits 2 g]))"
        using lt by simp
      then show ?thesis using Some False Cons.IH [OF lt]
        by (simp add: matched_rows_Cons)
    qed
  qed
qed

lemma asm_loop_rows:
  "asm_loop False [] ls = take 4096 (matched_rows (after_label ls))"
  by (simp add: asm_loop_seek asm_loop_collect)

lemma after_label_none: "\<not> has_label ls \<Longrightarrow> after_label ls = []"
  by (induction ls) (simp_all add: has_label_def after_label_def)

lemma slice_nth:
  "j < 16 \<Longrightarrow> i * 16 + j < length rows \<Longrightarrow> slice rows (i * 16) ((i + 1) * 16) ! j = rows ! (i * 16 + j)"
  by (simp add: slice_def)

lemma slice_length:
  "(i + 1) * 16 \<le> length rows \<Longrightarrow> length (slice rows (i * 16) ((i + 1) * 16)) = 16"
  by (simp add: slice_def)

lemma parse_asm_absent: "files p = None \<Longrightarrow> parse_asm files p = Inr None"
  by (simp add: parse_asm_def path_exists_def)

lemma parse_asm_raises:
  "files p = Some Directory \<Longrightarrow> parse_asm files p = Inl (IsADirectoryError p)"
  "files p = Some Undecodable \<Longrightarrow> parse_asm files p = Inl (UnicodeDecodeError p)"
  by (simp_all add: parse_asm_def path_exists_def read_text_def)

lemma parse_asm_text:
  assumes "files p = Some (TextFile content)"
  shows "parse_asm files p =
    Inr (if length (matched_rows (after_label (splitlines content))) < 4096 then None
         else Some (map (\<lambda>i. slice (take 4096 (matched_rows (after_label (splitlines content))))
                              (i * 16) ((i + 1) * 16)) [0..<256]))"
  using assms
  by (auto simp add: parse_asm_def path_exists_def read_text_def asm_loop_rows Let_def
      simp del: upt_Suc)

lemma parse_asm_Some:
  assumes "files p = Some (TextFile content)"
    and "4096 \<le> length (matched_rows (after_label (splitlines content)))"
  shows "parse_asm files p =
    Inr (Some (map (\<lambda>i. slice (take 4096 (matched_rows (after_label (splitlines content))))
                          (i * 16) ((i + 1) * 16)) [0..<256]))"
  using assms by (simp add: parse_asm_text del: upt_Suc)

lemma parse_asm_shape:
  assumes "parse_asm files p = Inr (Some t)"
  shows "length t = 256" and "list_all (\<lambda>g. length g = 16) t"
proof -
  from assms obtain content where c: "files p = Some (TextFile content)"
    by (cases "files p")
      (auto simp add: parse_asm_def path_exists_def read_text_def split: entry.splits)
  let ?rows = "take 4096 (matched_rows (after_label (splitlines content)))"
  from assms have len: "length ?rows = 4096"
    and t: "t = map (\<lambda>i. slice ?rows (i * 16) ((i + 1) * 16)) [0..<256]"
    by (auto simp add: parse_asm_text [of files p content] c simp del: upt_Suc split: if_splits)
  show "length t = 256" by (simp add: t)
  have "\<And>i. i < 256 \<Longrightarrow> length (slice ?rows (i * 16) ((i + 1) * 16)) = 16"
    using len by (intro slice_length) simp
  then show "list_all (\<lambda>g. length g = 16) t"
    by (simp add: t list_all_iff)
qed

lemma ROW_RE_bits:
  assumes "ROW_RE_match l = Some bits"
  shows "length bits = 8" and "list_all (\<lambda>c. c = CHR ''0'' \<or> c = CHR ''1'') bits"
  using assms by (auto simp add: ROW_RE_match_def Let_def split: if_splits)

lemma digit_val_bit: "c = CHR ''0'' \<or> c = CHR ''1'' \<Longrightarrow> digit_val c = (if c = CHR ''1'' then 1 else 0)"
  by (auto simp add: digit_val_def)

lemma int_of_bits:
  assumes "length bits = 8" and "list_all (\<lambda>c. c = CHR ''0'' \<or> c = CHR ''1'') bits"
  shows "int_of_digits 2 bits = (\<Sum>k<8. if bits ! k = CHR ''1'' then 2 ^ (7 - k) else 0)"
proof -
  from assms(1) obtain b0 b1 b2 b3 b4 b5 b6 b7 where b: "bits = [b0, b1, b2, b3, b4, b5, b6, b7]"
    by (auto simp add: eval_nat_numeral length_Suc_conv)
  have s: "{..<8::nat} = {0,1,2,3,4,5,6,7}" by auto
  show ?thesis using assms(2) unfolding b s
    by (simp add: int_of_digits_def digit_val_bit)
qed

section \<open>The BDF parser, line by line\<close>

declare pad_rows.simps [simp del]

lemma pad_rows_eq: "pad_rows rows = rows @ replicate (16 - length rows) 0"
proof (induction rows rule: pad_rows.induct)
  case (1 rows)
  show ?case
  proof (cases "length rows < 16")
    case True
    then have "16 - length rows = Suc (16 - length (rows @ [0]))" by simp
    then show ?thesis using True 1
      by (subst pad_rows.simps) (simp add: replicate_app_Cons_same)
  next
    case False
    then show ?thesis by (subst pad_rows.simps) simp
  qed
qed

lemma pad_rows_glyph:
  "pad_rows (map (\<lambda>r. int_of_digits 16 r AND 0xFF) (take 16 rows)) = glyph_of_rows rows"
  by (simp add: pad_rows_eq glyph_of_rows_def min_def)

lemma length_glyph_of_rows: "length (glyph_of_rows rows) = 16"
  by (simp add: glyph_of_rows_def)

lemma bdf_run_snoc: "bdf_run (ls @ [l]) = bdf_step (bdf_run ls) l"
  by (simp add: bdf_run_def)

lemma bdf_run_append: "bdf_run (ls @ ms) = foldl bdf_step (bdf_run ls) ms"
  by (simp add: bdf_run_def)

lemma startswith_ENDCHAR: "\<not> startswith ''ENDCHAR'' ''ENCODING ''"
  by (simp add: startswith_def)

lemma startswith_BITMAP: "\<not> startswith ''BITMAP'' ''ENCODING ''"
  by (simp add: startswith_def)

lemma bdf_step_ENDCHAR:
  "strip e = ''ENDCHAR'' \<Longrightarrow>
   bdf_step s e =
     (if enc s \<noteq> None \<and> collecting s
      then s\<lparr>glyphs := (glyphs s)(the (enc s) \<mapsto> glyph_of_rows (bitmap_rows s)),
             enc := None, collecting := False, bitmap_rows := []\<rparr>
      else s\<lparr>enc := None, collecting := False, bitmap_rows := []\<rparr>)"
  by (simp add: bdf_step_def startswith_ENDCHAR pad_rows_glyph Let_def)

lemma bdf_step_BITMAP:
  "strip b = ''BITMAP'' \<Longrightarrow> bdf_step s b = s\<lparr>collecting := True, bitmap_rows := []\<rparr>"
  by (simp add: bdf_step_def startswith_BITMAP)

lemma bdf_step_ENCODING:
  "startswith (strip l) ''ENCODING '' \<Longrightarrow> bdf_step s l = s\<lparr>enc := parse_encoding (strip l)\<rparr>"
  by (simp add: bdf_step_def)

lemma bdf_step_other:
  "\<not> is_directive (strip l) \<Longrightarrow>
   bdf_step s l =
     (if collecting s \<and> hex2_fullmatch (strip l) then s\<lparr>bitmap_rows := bitmap_rows s @ [strip l]\<rparr>
      else s)"
  by (auto simp add: bdf_step_def is_directive_def Let_def)

lemma bdf_step_glyphs_ok: "glyphs_ok (glyphs s) \<Longrightarrow> glyphs_ok (glyphs (bdf_step s l))"
  by (auto simp add: bdf_step_def glyphs_ok_def Let_def pad_rows_glyph length_glyph_of_rows)

lemma foldl_glyphs_ok: "glyphs_ok (glyphs s) \<Longrightarrow> glyphs_ok (glyphs (foldl bdf_step s ls))"
  by (induction ls arbitrary: s) (simp_all add: bdf_step_glyphs_ok)

lemma bdf_run_glyphs_ok: "glyphs_ok (glyphs (bdf_run ls))"
  unfolding bdf_run_def by (rule foldl_glyphs_ok) (simp add: bdf_init_def glyphs_ok_def)

text \<open>Lines that are no keywords leave the pending code point alone.\<close>

lemma foldl_other_enc:
  "list_all (\<lambda>l. \<not> is_directive (strip l)) ls \<Longrightarrow>
   enc (foldl bdf_step s ls) = enc s \<and> glyphs (foldl bdf_step s ls) = glyphs s
   \<and> collecting (foldl bdf_step s ls) = collecting s"
  by (induction ls arbitrary: s) (simp_all add: bdf_step_other)

lemma foldl_collect:
  "list_all (\<lambda>l. \<not> is_directive (strip l)) ls \<Longrightarrow> collecting s \<Longrightarrow>
   bitmap_rows (foldl bdf_step s ls) = bitmap_rows s @ filter hex2_fullmatch (map strip ls)"
  by (induction ls arbitrary: s) (simp_all add: bdf_step_other)

lemma bdf_block:
  assumes "startswith (strip encl) ''ENCODING ''" and "parse_encoding (strip encl) = Some cp"
    and "strip b = ''BITMAP''" and "strip e = ''ENDCHAR''"
    and "list_all (\<lambda>l. \<not> is_directive (strip l)) (mid @ body)"
  shows "glyphs (bdf_run (pre @ [encl] @ mid @ [b] @ body @ [e])) cp
     = Some (glyph_of_rows (filter hex2_fullmatch (map strip body)))"
proof -
  define s1 where "s1 = bdf_step (bdf_run pre) encl"
  define s2 where "s2 = foldl bdf_step s1 mid"
  define s3 where "s3 = bdf_step s2 b"
  define s4 where "s4 = foldl bdf_step s3 body"
  from assms(5) have mid: "list_all (\<lambda>l. \<not> is_directive (strip l)) mid"
    and body: "list_all (\<lambda>l. \<not> is_directive (strip l)) body" by simp_all
  have e1: "enc s1 = Some cp" using assms(1,2) by (simp add: s1_def bdf_step_ENCODING)
  have e2: "enc s2 = Some cp" using foldl_other_enc [OF mid, of s1] e1 by (simp add: s2_def)
  have s3: "enc s3 = Some cp" "collecting s3" "bitmap_rows s3 = []"
    using e2 assms(3) by (simp_all add: s3_def bdf_step_BITMAP)
  have s4: "enc s4 = Some cp" "collecting s4"
      "bitmap_rows s4 = filter hex2_fullmatch (map strip body)"
    using foldl_other_enc [OF body, of s3] foldl_collect [OF body, of s3] s3
    by (simp_all add: s4_def)
  have "bdf_run (pre @ [encl] @ mid @ [b] @ body @ [e]) = bdf_step s4 e"
    by (simp add: bdf_run_def s1_def s2_def s3_def s4_def)
  then show ?thesis using s4 assms(4) by (simp add: bdf_step_ENDCHAR)
qed

lemma bdf_step_no_enc:
  "enc s = None \<Longrightarrow> \<not> startswith (strip l) ''ENCODING '' \<Longrightarrow>
   enc (bdf_step s l) = None \<and> glyphs (bdf_step s l) = glyphs s"
  by (simp add: bdf_step_def Let_def)

lemma foldl_no_enc:
  "enc s = None \<Longrightarrow> list_all (\<lambda>l. \<not> startswith (strip l) ''ENCODING '') ls \<Longrightarrow>
   enc (foldl bdf_step s ls) = None \<and> glyphs (foldl bdf_step s ls) = glyphs s"
  by (induction ls arbitrary: s) (simp_all add: bdf_step_no_enc)

section \<open>The sample inputs\<close>

lemma splitlines_from_line:
  "list_all (\<lambda>c. \<not> is_linebreak c) l \<Longrightarrow>
   splitlines_from acc (l @ CHR 0x0A # rest) = (rev acc @ l) # splitlines_from [] rest"
proof (induction l arbitrary: acc)
  case Nil
  show ?case by (simp add: is_linebreak_def)
next
  case (Cons c l)
  then have "\<not> is_linebreak c" by simp
  then have "c \<noteq> CHR 0x0D" by (auto simp add: is_linebreak_def)
  then show ?case using Cons by simp
qed

lemma splitlines_unlines:
  "list_all (list_all (\<lambda>c. \<not> is_linebreak c)) ls \<Longrightarrow> splitlines (unlines ls) = ls"
proof (induction ls)
  case Nil
  show ?case by (simp add: splitlines_def unlines_def)
next
  case (Cons l ls)
  then have "splitlines_from [] (l @ CHR 0x0A # unlines ls) = l # splitlines_from [] (unlines ls)"
    by (simp add: splitlines_from_line)
  then show ?case using Cons by (simp add: splitlines_def unlines_def)
qed

lemma list_all_replicate: "list_all P (replicate n x) = (n = 0 \<or> P x)"
  by (induction n) auto

lemma matched_rows_append: "matched_rows (xs @ ys) = matched_rows xs @ matched_rows ys"
  by (induction xs) (simp_all add: matched_rows_Nil matched_rows_Cons split: option.splits)

lemma matched_rows_replicate:
  "ROW_RE_match l = Some g \<Longrightarrow> matched_rows (replicate n l) = replicate n (int_of_digits 2 g)"
  by (induction n) (simp_all add: matched_rows_Nil matched_rows_Cons)

lemma zero_row: "ROW_RE_match ''    db 00000000b'' = Some ''00000000''"
  by (simp add: ROW_RE_match_def isspace_def startswith_def)

lemma one_row: "ROW_RE_match ''    db 11111111b'' = Some ''11111111''"
  by (simp add: ROW_RE_match_def isspace_def startswith_def)

lemma splitlines_asm_sample: "splitlines asm_sample_text = asm_sample_lines"
  unfolding asm_sample_text_def
  by (rule splitlines_unlines) (simp add: asm_sample_lines_def list_all_replicate is_linebreak_def)

lemma after_label_asm_sample:
  "after_label asm_sample_lines =
     replicate 80 ''    db 00000000b'' @ replicate 16 ''    db 11111111b''
       @ replicate 4000 ''    db 00000000b'' @ [''    db 11111111b'']"
  by (simp add: asm_sample_lines_def after_label_def strip_def isspace_def startswith_def
      ASM_LABEL_def)

lemma matched_rows_asm_sample:
  "matched_rows (after_label asm_sample_lines) =
     replicate 80 0 @ replicate 16 255 @ replicate 4000 0 @ [255]"
  by (simp add: after_label_asm_sample matched_rows_append matched_rows_replicate [OF zero_row]
      matched_rows_replicate [OF one_row] matched_rows_Cons matched_rows_Nil one_row
      int_of_digits_def digit_val_def)

lemma all_codes_int: "map py_int all_codes = map (\<lambda>k. Some (int k)) (upt 0 256)"
  by (simp add: all_codes_def strip_def isspace_def py_int_def isdigit_def int_of_digits_def
      digit_val_def upt_rec)

lemma all_codes_plain:
  "list_all (\<lambda>c. c \<noteq> [] \<and> list_all (\<lambda>x. \<not> isspace x \<and> \<not> is_linebreak x) c) all_codes"
  by (simp add: all_codes_def isspace_def is_linebreak_def)

lemma strip_plain:
  assumes "s \<noteq> []" and "\<not> isspace (hd s)" and "\<not> isspace (last s)"
  shows "strip s = s"
proof -
  from assms have "dropWhile isspace s = s" by (cases s) simp_all
  moreover from assms have "dropWhile isspace (rev s) = rev s"
    by (cases s rule: rev_cases) simp_all
  ultimately show ?thesis by (simp add: strip_def)
qed

lemma split_from_word:
  "list_all (\<lambda>x. \<not> isspace x) w \<Longrightarrow> split_from acc (w @ rest) = split_from (rev w @ acc) rest"
  by (induction w arbitrary: acc) simp_all

lemma encoding_line:
  assumes "c \<noteq> []" and "list_all (\<lambda>x. \<not> isspace x) c"
  shows "strip (''ENCODING '' @ c) = ''ENCODING '' @ c"
    and "parse_encoding (''ENCODING '' @ c) = py_int c"
proof -
  from assms have "\<not> isspace (last c)" by (cases c rule: rev_cases) simp_all
  then show "strip (''ENCODING '' @ c) = ''ENCODING '' @ c"
    using assms(1) by (intro strip_plain) (simp_all add: isspace_def)
  have "py_split (''ENCODING '' @ c) = [''ENCODING'', c]"
    using assms split_from_word [of c "[]" "[]"]
    by (simp add: py_split_def isspace_def)
  then show "parse_encoding (''ENCODING '' @ c) = py_int c"
    by (simp add: parse_encoding_def)
qed

lemma bdf_step_keeps: "k \<in> dom (glyphs s) \<Longrightarrow> k \<in> dom (glyphs (bdf_step s l))"
  by (auto simp add: bdf_step_def Let_def)

lemma foldl_keeps: "k \<in> dom (glyphs s) \<Longrightarrow> k \<in> dom (glyphs (foldl bdf_step s ls))"
  by (induction ls arbitrary: s) (simp_all add: bdf_step_keeps del: domIff)

lemma bdf_char_lines_defined:
  assumes "c \<in> set codes" and "c \<noteq> []" and "list_all (\<lambda>x. \<not> isspace x) c"
    and "py_int c = Some k"
  shows "glyphs (bdf_run (concat (map bdf_char_lines codes))) k \<noteq> None"
proof -
  from assms(1) obtain cs1 cs2 where codes: "codes = cs1 @ c # cs2"
    by (auto dest: split_list)
  let ?pre = "concat (map bdf_char_lines cs1)"
  let ?def = "?pre @ [''ENCODING '' @ c] @ [] @ [''BITMAP''] @ [] @ [''ENDCHAR'']"
  have line: "strip (''ENCODING '' @ c) = ''ENCODING '' @ c"
    and enc: "parse_encoding (''ENCODING '' @ c) = Some k"
    using encoding_line [OF assms(2,3)] assms(4) by simp_all
  have kw: "strip ''BITMAP'' = ''BITMAP''" "strip ''ENDCHAR'' = ''ENDCHAR''"
    by (simp_all add: strip_def isspace_def)
  have "glyphs (bdf_run ?def) k = Some (glyph_of_rows (filter hex2_fullmatch (map strip [])))"
  proof (rule bdf_block)
    show "startswith (strip (''ENCODING '' @ c)) ''ENCODING ''"
      unfolding line by (simp add: startswith_def)
    show "parse_encoding (strip (''ENCODING '' @ c)) = Some k"
      by (simp only: line enc)
    show "list_all (\<lambda>l. \<not> is_directive (strip l)) ([] @ [])" by simp
  qed (rule kw)+
  then have "k \<in> dom (glyphs (bdf_run ?def))" by auto
  then have "k \<in> dom (glyphs (foldl bdf_step (bdf_run ?def) (concat (map bdf_char_lines cs2))))"
    by (rule foldl_keeps)
  moreover have "concat (map bdf_char_lines codes) = ?def @ concat (map bdf_char_lines cs2)"
    by (simp add: codes bdf_char_lines_def)
  ultimately show ?thesis by (auto simp only: bdf_run_append)
qed

lemma bdf_char_lines_plain:
  "list_all (\<lambda>c. list_all (\<lambda>x. \<not> is_linebreak x) c) codes \<Longrightarrow>
   list_all (list_all (\<lambda>c. \<not> is_linebreak c)) (concat (map bdf_char_lines codes))"
  by (induction codes) (simp_all add: bdf_char_lines_def is_linebreak_def)

lemma splitlines_bdf_full: "splitlines bdf_full_text = concat (map bdf_char_lines all_codes)"
  unfolding bdf_full_text_def
proof (rule splitlines_unlines, rule bdf_char_lines_plain)
  show "list_all (list_all (\<lambda>x. \<not> is_linebreak x)) all_codes"
    using all_codes_plain by (simp add: list_all_iff)
qed

lemma bdf_full_defined:
  assumes "cp < 256"
  shows "glyphs (bdf_run (splitlines bdf_full_text)) (int cp) \<noteq> None"
proof -
  have len: "length all_codes = 256"
    using arg_cong [OF all_codes_int, of length] by simp
  have "map py_int all_codes ! cp = Some (int cp)"
    using assms by (simp only: all_codes_int) simp
  then have int: "py_int (all_codes ! cp) = Some (int cp)"
    using assms len by simp
  have mem: "all_codes ! cp \<in> set all_codes" using assms len by simp
  with all_codes_plain have "all_codes ! cp \<noteq> []"
      and "list_all (\<lambda>x. \<not> isspace x) (all_codes ! cp)"
    by (auto simp add: list_all_iff)
  with mem int show ?thesis
    unfolding splitlines_bdf_full by (intro bdf_char_lines_defined)
qed

lemma sample_paths:
  "Path ''spleen.bdf'' = PurePath [] [''spleen.bdf'']"
  "Path ''a.bdf'' = PurePath [] [''a.bdf'']"
  "Path ''spleen.asm'' = PurePath [] [''spleen.asm'']"
  "Path ''short.asm'' = PurePath [] [''short.asm'']"
  "Path ''midline.asm'' = PurePath [] [''midline.asm'']"
  "Path ''fonts'' = PurePath [] [''fonts'']"
  "Path ''out.c'' = PurePath [] [''out.c'']"
  "Path ''font.txt'' = PurePath [] [''font.txt'']"
  "Path ''none.asm'' = PurePath [] [''none.asm'']"
  by (simp_all add: Path_def)

lemma sample_suffixes:
  "lower (suffix (Path ''spleen.bdf'')) = ''.bdf''"
  "lower (suffix (Path ''a.bdf'')) = ''.bdf''"
  "lower (suffix (Path ''spleen.asm'')) = ''.asm''"
  "lower (suffix (Path ''short.asm'')) = ''.asm''"
  "lower (suffix (Path ''font.txt'')) = ''.txt''"
  by (simp_all add: sample_paths suffix_def name_def rfind_def lower_def lower_char_def)

lemma sample_files_at:
  "sample_files (Path ''spleen.bdf'') = Some (TextFile bdf_full_text)"
  "sample_files (Path ''a.bdf'') = Some (TextFile bdf_A_text)"
  "sample_files (Path ''spleen.asm'') = Some (TextFile asm_sample_text)"
  "sample_files (Path ''short.asm'') = Some (TextFile (unlines [''spleen:'', '' db 00000000b'']))"
  "sample_files (Path ''midline.asm'') = Some (TextFile (unlines midline_lines))"
  "sample_files (Path ''fonts'') = Some Directory"
  "sample_files (Path ''none.asm'') = None"
  "sample_files (Path ''font.txt'') = None"
  "sample_files (Path ''out.c'') = None"
  by (simp_all add: sample_files_def sample_paths)

lemma splitlines_bdf_A: "splitlines bdf_A_text = bdf_A_lines"
  unfolding bdf_A_text_def
  by (rule splitlines_unlines) (simp add: bdf_A_lines_def is_linebreak_def)

lemma bdf_run_A:
  "glyphs (bdf_run bdf_A_lines) = [65 \<mapsto> 255 # replicate 15 0]"
  by (simp add: bdf_run_def bdf_A_lines_def bdf_init_def bdf_step_def strip_def isspace_def
      startswith_def parse_encoding_def py_split_def py_int_def isdigit_def int_of_digits_def
      digit_val_def hex2_fullmatch_def is_hex_def pad_rows_eq Let_def)

lemma parse_bdf_A: "parse_bdf sample_files (Path ''a.bdf'') = Inr [65 \<mapsto> 255 # replicate 15 0]"
  by (simp add: parse_bdf_def read_text_def sample_files_at splitlines_bdf_A bdf_run_A)

lemma parse_asm_sample:
  "parse_asm sample_files (Path ''spleen.asm'') =
     Inr (Some (map (\<lambda>i. slice (replicate 80 0 @ replicate 16 255 @ replicate 4000 0) (i * 16) ((i + 1) * 16))
             [0..<256]))"
  by (simp add: parse_asm_Some [of sample_files "Path ''spleen.asm''" asm_sample_text]
      sample_files_at splitlines_asm_sample matched_rows_asm_sample del: upt_Suc)

lemma parse_asm_sample_5:
  "parse_asm sample_files (Path ''spleen.asm'') = Inr (Some t) \<Longrightarrow> t ! 5 = replicate 16 255"
  by (auto simp add: parse_asm_sample slice_def simp del: upt_Suc)

lemma splitlines_short:
  "splitlines (unlines [''spleen:'', '' db 00000000b'']) = [''spleen:'', '' db 00000000b'']"
  by (rule splitlines_unlines) (simp add: is_linebreak_def)

lemma matched_rows_short:
  "length (matched_rows (after_label (splitlines (unlines [''spleen:'', '' db 00000000b''])))) < 4096"
  by (simp add: splitlines_short after_label_def matched_rows_def List.map_filter_simps
      split: option.splits)

lemma parse_asm_short: "parse_asm sample_files (Path ''short.asm'') = Inr None"
  using matched_rows_short
  by (simp add: parse_asm_text [of sample_files "Path ''short.asm''" "unlines [''spleen:'', '' db 00000000b'']"]
      sample_files_at del: upt_Suc)

lemma parse_asm_none: "parse_asm sample_files (Path ''none.asm'') = Inr None"
  by (simp add: parse_asm_absent sample_files_at)

lemma parse_asm_fonts: "parse_asm sample_files (Path ''fonts'') = Inl (IsADirectoryError (Path ''fonts''))"
  by (simp add: parse_asm_raises sample_files_at)

lemma splitlines_midline: "splitlines (unlines midline_lines) = midline_lines"
  by (rule splitlines_unlines) (simp add: midline_lines_def list_all_replicate is_linebreak_def)

lemma list_ex_replicate: "list_ex P (replicate n x) = (0 < n \<and> P x)"
  by (induction n) auto

lemma midline_no_label: "\<not> has_label midline_lines"
  by (simp add: has_label_def midline_lines_def list_ex_replicate strip_def isspace_def
      startswith_def ASM_LABEL_def)

lemma midline_rows: "4096 \<le> length (matched_rows midline_lines)"
  by (simp add: midline_lines_def matched_rows_Cons matched_rows_replicate [OF zero_row]
      split: option.splits)

lemma sample_strips:
  "strip ''ENDCHAR'' = ''ENDCHAR''" "strip ''BITMAP'' = ''BITMAP''" "strip ''FF'' = ''FF''"
  "strip ''ENCODING 65'' = ''ENCODING 65''"
  by (simp_all add: strip_def isspace_def)

lemma parse_encoding_65: "parse_encoding ''ENCODING 65'' = Some 65"
  by (simp add: parse_encoding_def py_split_def py_int_def strip_def isspace_def isdigit_def
      int_of_digits_def digit_val_def)

section \<open>The merged table\<close>

lemma table_entry_256:
  assumes "cp < 256" and "parse_asm files maybe_asm = Inr asm_fallback"
  shows "table_entry bdf_glyphs asm_fallback cp =
      (case bdf_glyphs (int cp) of
         Some g \<Rightarrow> g
       | None \<Rightarrow> (case asm_fallback of Some t \<Rightarrow> t ! cp | None \<Rightarrow> replicate 16 0))"
proof (cases asm_fallback)
  case None
  then show ?thesis by (simp add: table_entry_def truthy_def split: option.splits)
next
  case (Some t)
  with assms(2) have "length t = 256" by (intro parse_asm_shape(1)) simp
  with assms(1) Some show ?thesis
    by (auto simp add: table_entry_def truthy_def split: option.splits)
qed

lemma truthy_parse_asm:
  "parse_asm files p = Inr asm_fallback \<Longrightarrow> truthy asm_fallback = (asm_fallback \<noteq> None)"
  by (cases asm_fallback) (auto simp add: truthy_def dest: parse_asm_shape(1))

lemma build_bdf:
  assumes "lower (suffix src_path) = ''.bdf''"
    and "parse_bdf files src_path = Inr bdf_glyphs"
    and "parse_asm files maybe_asm = Inr asm_fallback"
  shows "build_glyph_table files src_path maybe_asm =
     Inr (map (table_entry bdf_glyphs asm_fallback) [0..<256],
          str_path src_path @ '' (BDF)''
            @ (if asm_fallback \<noteq> None then '' + ASM fallback'' else []))"
  using assms truthy_parse_asm [OF assms(3)]
  by (simp add: build_glyph_table_def Let_def del: upt_Suc)

text \<open>
  Claim C1. With a source whose extension is \<open>.bdf\<close>, when neither parser raises, the
  table has 256 glyphs, and for every code point below 256 the glyph is the one of the BDF
  dictionary when the code point is a key there; otherwise the glyph of the fallback table
  at that code point when the legacy parser returned a table; otherwise 16 zero bytes.
\<close>

theorem build_table_bdf:
  assumes "lower (suffix src_path) = ''.bdf''"
    and "parse_bdf files src_path = Inr bdf_glyphs"
    and "parse_asm files maybe_asm = Inr asm_fallback"
  shows "\<exists>table desc. build_glyph_table files src_path maybe_asm = Inr (table, desc)
      \<and> length table = 256
      \<and> (\<forall>cp<256. table ! cp =
            (case bdf_glyphs (int cp) of
               Some g \<Rightarrow> g
             | None \<Rightarrow>
                 (case asm_fallback of
                    Some t \<Rightarrow> t ! cp
                  | None \<Rightarrow> replicate 16 0)))"
  using build_bdf [OF assms] table_entry_256 [OF _ assms(3), of _ bdf_glyphs]
  by (simp del: upt_Suc)

theorem build_table_bdf_witness:
  "lower (suffix (Path ''a.bdf'')) = ''.bdf''
   \<and> (\<exists>table desc.
        build_glyph_table sample_files (Path ''a.bdf'') (Path ''spleen.asm'') = Inr (table, desc)
        \<and> table ! 65 = 255 # replicate 15 0 \<and> table ! 5 = replicate 16 255)
   \<and> (\<exists>table desc.
        build_glyph_table sample_files (Path ''a.bdf'') (Path ''none.asm'') = Inr (table, desc)
        \<and> table ! 65 = 255 # replicate 15 0 \<and> table ! 5 = replicate 16 0)"
proof -
  obtain t where t: "parse_asm sample_files (Path ''spleen.asm'') = Inr (Some t)"
    by (simp add: parse_asm_sample del: upt_Suc)
  from t have t5: "t ! 5 = replicate 16 255" by (rule parse_asm_sample_5)
  show ?thesis
    using build_table_bdf [OF sample_suffixes(2) parse_bdf_A t]
      build_table_bdf [OF sample_suffixes(2) parse_bdf_A parse_asm_none]
    by (auto simp add: sample_suffixes t5)
qed

section \<open>The legacy parser\<close>

text \<open>
  Claim C2. When the lines after the first label line (a line that, stripped, starts with
  \<open>spleen:\<close>) hold at least 4096 lines that match the row pattern, the legacy parser
  returns 256 glyphs of 16 bytes, byte \<open>j\<close> of glyph \<open>i\<close> is the value of matched row
  \<open>i * 16 + j\<close>, and the value of a row is the number its eight binary digits denote,
  most significant bit first.
\<close>

theorem parse_asm_full_table:
  assumes "files p = Some (TextFile content)"
    and "4096 \<le> length (matched_rows (after_label (splitlines content)))"
  shows "(\<exists>t. parse_asm files p = Inr (Some t) \<and> length t = 256
        \<and> list_all (\<lambda>g. length g = 16) t
        \<and> (\<forall>i<256. \<forall>j<16.
              t ! i ! j = matched_rows (after_label (splitlines content)) ! (i * 16 + j)))
     \<and> (\<forall>l bits. ROW_RE_match l = Some bits \<longrightarrow>
          int_of_digits 2 bits = (\<Sum>k<8. if bits ! k = CHR ''1'' then 2 ^ (7 - k) else 0))"
proof -
  let ?rows = "matched_rows (after_label (splitlines content))"
  let ?t = "map (\<lambda>i. slice (take 4096 ?rows) (i * 16) ((i + 1) * 16)) [0..<256]"
  have t: "parse_asm files p = Inr (Some ?t)" using assms by (rule parse_asm_Some)
  have nth: "?t ! i ! j = ?rows ! (i * 16 + j)" if "i < 256" "j < 16" for i j
  proof -
    from that have "i * 16 + j < 4096" by simp
    with that assms(2) show ?thesis by (simp add: slice_def del: upt_Suc)
  qed
  have bits: "int_of_digits 2 bits = (\<Sum>k<8. if bits ! k = CHR ''1'' then 2 ^ (7 - k) else 0)"
    if "ROW_RE_match l = Some bits" for l bits
    using ROW_RE_bits [OF that] by (rule int_of_bits)
  from t nth bits parse_asm_shape [OF t] show ?thesis by (simp del: upt_Suc)
qed

theorem parse_asm_full_table_witness:
  "sample_files (Path ''spleen.asm'') = Some (TextFile asm_sample_text)
   \<and> 4096 \<le> length (matched_rows (after_label (splitlines asm_sample_text)))
   \<and> (\<exists>t. parse_asm sample_files (Path ''spleen.asm'') = Inr (Some t) \<and> length t = 256
         \<and> t ! 5 ! 15 = 255 \<and> t ! 6 ! 0 = 0 \<and> t ! 255 ! 15 = 0)"
proof -
  have rows: "4096 \<le> length (matched_rows (after_label (splitlines asm_sample_text)))"
    by (simp add: splitlines_asm_sample matched_rows_asm_sample)
  have v: "(replicate 80 0 @ replicate 16 255 @ replicate 4000 0 @ [255::int]) ! 95 = 255"
    "(replicate 80 0 @ replicate 16 255 @ replicate 4000 0 @ [255::int]) ! 96 = 0"
    "(replicate 80 0 @ replicate 16 255 @ replicate 4000 0 @ [255::int]) ! 4095 = 0"
    by (simp_all add: nth_append)
  show ?thesis
    using parse_asm_full_table [of sample_files "Path ''spleen.asm''" asm_sample_text] rows v
    by (auto simp add: sample_files_at splitlines_asm_sample matched_rows_asm_sample)
qed

text \<open>
  Claim C3, as amended. The legacy parser returns \<open>None\<close> exactly when nothing is at the
  path, or a text file is there in which no line, stripped, starts with \<open>spleen:\<close> or
  fewer than 4096 lines match the row pattern after the first such line; for every other
  text file it returns a table of 256 glyphs of 16 bytes. For a directory, and for a file
  whose bytes are no text, the exception of \<open>read_text\<close> leaves the parser.
\<close>

theorem parse_asm_None_cases:
  "(parse_asm files p = Inr None) =
     (files p = None
      \<or> (\<exists>content. files p = Some (TextFile content)
           \<and> (\<not> has_label (splitlines content)
               \<or> length (matched_rows (after_label (splitlines content))) < 4096)))
   \<and> (\<forall>content. files p = Some (TextFile content) \<longrightarrow>
        parse_asm files p = Inr None
        \<or> (\<exists>t. parse_asm files p = Inr (Some t) \<and> length t = 256
              \<and> list_all (\<lambda>g. length g = 16) t))
   \<and> (files p = Some Directory \<longrightarrow> parse_asm files p = Inl (IsADirectoryError p))
   \<and> (files p = Some Undecodable \<longrightarrow> parse_asm files p = Inl (UnicodeDecodeError p))"
proof (intro conjI allI impI)
  have short: "length (matched_rows (after_label ls)) < 4096" if "\<not> has_label ls" for ls
    using after_label_none [OF that] by (simp add: matched_rows_Nil)
  show "(parse_asm files p = Inr None) =
     (files p = None
      \<or> (\<exists>content. files p = Some (TextFile content)
           \<and> (\<not> has_label (splitlines content)
               \<or> length (matched_rows (after_label (splitlines content))) < 4096)))"
  proof (cases "files p")
    case None
    then show ?thesis by (simp add: parse_asm_absent)
  next
    case (Some node)
    then show ?thesis
      using short
      by (cases node) (auto simp add: parse_asm_text parse_asm_raises simp del: upt_Suc)
  qed
next
  fix content
  assume "files p = Some (TextFile content)"
  then have "\<exists>r. parse_asm files p = Inr r" by (simp add: parse_asm_text del: upt_Suc)
  then obtain r where r: "parse_asm files p = Inr r" ..
  show "parse_asm files p = Inr None
      \<or> (\<exists>t. parse_asm files p = Inr (Some t) \<and> length t = 256
            \<and> list_all (\<lambda>g. length g = 16) t)"
  proof (cases r)
    case None
    with r show ?thesis by simp
  next
    case (Some t)
    with r parse_asm_shape [of files p t] show ?thesis by simp
  qed
next
  assume "files p = Some Directory"
  then show "parse_asm files p = Inl (IsADirectoryError p)" by (rule parse_asm_raises)
next
  assume "files p = Some Undecodable"
  then show "parse_asm files p = Inl (UnicodeDecodeError p)" by (rule parse_asm_raises)
qed

theorem parse_asm_None_cases_witness:
  "parse_asm sample_files (Path ''none.asm'') = Inr None
   \<and> parse_asm sample_files (Path ''short.asm'') = Inr None
   \<and> parse_asm sample_files (Path ''midline.asm'') = Inr None
   \<and> parse_asm sample_files (Path ''a.bdf'') = Inr None
   \<and> (\<exists>t. parse_asm sample_files (Path ''spleen.asm'') = Inr (Some t) \<and> length t = 256)
   \<and> parse_asm sample_files (Path ''fonts'') = Inl (IsADirectoryError (Path ''fonts''))"
proof -
  have nolabel: "\<not> has_label (splitlines bdf_A_text)"
    by (simp add: splitlines_bdf_A bdf_A_lines_def has_label_def strip_def isspace_def
        startswith_def ASM_LABEL_def)
  have mid: "\<not> has_label (splitlines (unlines midline_lines))"
    by (simp add: splitlines_midline midline_no_label)
  have full: "\<not> length (matched_rows (after_label (splitlines asm_sample_text))) < 4096"
    by (simp add: splitlines_asm_sample matched_rows_asm_sample)
  have label: "has_label (splitlines asm_sample_text)"
    by (simp add: splitlines_asm_sample has_label_def asm_sample_lines_def strip_def
        isspace_def startswith_def ASM_LABEL_def)
  show ?thesis
    using parse_asm_None_cases [of sample_files "Path ''none.asm''"]
      parse_asm_None_cases [of sample_files "Path ''short.asm''"]
      parse_asm_None_cases [of sample_files "Path ''midline.asm''"]
      parse_asm_None_cases [of sample_files "Path ''a.bdf''"]
      parse_asm_None_cases [of sample_files "Path ''spleen.asm''"]
      parse_asm_None_cases [of sample_files "Path ''fonts''"]
      matched_rows_short nolabel mid full label
    by (simp add: sample_files_at) blast
qed

text \<open>
  The claim as first stated, that every case other than a missing file, a missing marker
  and a short table gives a full table, fails at an existing path that is a directory: the
  parser raises. It fails too, read by the letter, for a text in which \<open>spleen:\<close> stands in
  the middle of a line before 4096 rows: the marker occurs, and the parser returns
  \<open>None\<close>.
\<close>

theorem parse_asm_counterexample:
  "sample_files (Path ''fonts'') = Some Directory
   \<and> parse_asm sample_files (Path ''fonts'') = Inl (IsADirectoryError (Path ''fonts''))
   \<and> sample_files (Path ''midline.asm'') = Some (TextFile (unlines midline_lines))
   \<and> splitlines (unlines midline_lines) = midline_lines
   \<and> 4096 \<le> length (matched_rows midline_lines)
   \<and> parse_asm sample_files (Path ''midline.asm'') = Inr None"
proof -
  have "length (matched_rows (after_label (splitlines (unlines midline_lines)))) < 4096"
    using after_label_none [OF midline_no_label] by (simp add: splitlines_midline matched_rows_Nil)
  then have "parse_asm sample_files (Path ''midline.asm'') = Inr None"
    by (simp add: parse_asm_text [of sample_files "Path ''midline.asm''" "unlines midline_lines"]
        sample_files_at del: upt_Suc)
  then show ?thesis
    by (simp add: sample_files_at parse_asm_fonts splitlines_midline midline_rows)
qed

section \<open>The glyphs of the BDF parser\<close>

text \<open>
  Claim C4. Every glyph in the dictionary the BDF parser returns has 16 bytes. For a
  definition made of an \<open>ENCODING\<close> line that gives the code point, a \<open>BITMAP\<close> line, body
  lines and an \<open>ENDCHAR\<close> line, the glyph stored holds the bytes of the valid row lines
  of the body in order: with \<open>n < 16\<close> valid rows the bytes from index \<open>n\<close> on are zero, and
  with more than 16 the rows from index 16 on are ignored.
\<close>

theorem parse_bdf_sixteen_bytes:
  assumes "startswith (strip encl) ''ENCODING ''" and "parse_encoding (strip encl) = Some cp"
    and "strip b = ''BITMAP''" and "strip e = ''ENDCHAR''"
    and "list_all (\<lambda>l. \<not> is_directive (strip l)) (mid @ body)"
    and "rows = filter hex2_fullmatch (map strip body)"
  shows "(\<forall>files p m c g. parse_bdf files p = Inr m \<and> m c = Some g \<longrightarrow> length g = 16)
     \<and> (\<exists>g. glyphs (bdf_run (pre @ [encl] @ mid @ [b] @ body @ [e])) cp = Some g
          \<and> length g = 16
          \<and> (\<forall>j<16. g ! j =
                (if j < length rows then int_of_digits 16 (rows ! j) AND 0xFF else 0)))"
proof -
  have all: "length g = 16" if "parse_bdf files p = Inr m" "m c = Some g" for files p m c g
  proof -
    from that(1) obtain content where "m = glyphs (bdf_run (splitlines content))"
      by (auto simp add: parse_bdf_def split: sum.splits)
    with bdf_run_glyphs_ok [of "splitlines content"] that(2) show ?thesis
      by (simp add: glyphs_ok_def)
  qed
  have g: "glyphs (bdf_run (pre @ [encl] @ mid @ [b] @ body @ [e])) cp = Some (glyph_of_rows rows)"
    unfolding assms(6) using assms(1-5) by (rule bdf_block)
  have nth: "glyph_of_rows rows ! j =
      (if j < length rows then int_of_digits 16 (rows ! j) AND 0xFF else 0)" if "j < 16" for j
    using that by (auto simp add: glyph_of_rows_def nth_append)
  from all g nth show ?thesis by (simp add: length_glyph_of_rows) blast
qed

theorem parse_bdf_sixteen_bytes_witness:
  "startswith (strip ''ENCODING 65'') ''ENCODING ''
   \<and> parse_encoding (strip ''ENCODING 65'') = Some 65
   \<and> (\<exists>g. glyphs (bdf_run [''STARTCHAR A'', ''ENCODING 65'', ''BBX 8 16 0 -4'', ''BITMAP'', ''FF'',
              ''junk'', '' 0a'', ''ENDCHAR'']) 65 = Some g
         \<and> length g = 16 \<and> g ! 0 = 255 \<and> g ! 1 = 10 \<and> g ! 2 = 0 \<and> g ! 15 = 0)"
proof -
  have s: "strip ''ENCODING 65'' = ''ENCODING 65''" "strip ''BITMAP'' = ''BITMAP''"
    "strip ''ENDCHAR'' = ''ENDCHAR''" "strip ''BBX 8 16 0 -4'' = ''BBX 8 16 0 -4''"
    "strip ''FF'' = ''FF''" "strip ''junk'' = ''junk''" "strip '' 0a'' = ''0a''"
    by (simp_all add: strip_def isspace_def)
  have e: "startswith ''ENCODING 65'' ''ENCODING ''" by (simp add: startswith_def)
  have p: "parse_encoding ''ENCODING 65'' = Some 65"
    by (simp add: parse_encoding_def py_split_def py_int_def strip_def isspace_def isdigit_def
        int_of_digits_def digit_val_def)
  have d: "list_all (\<lambda>l. \<not> is_directive (strip l)) ([''BBX 8 16 0 -4''] @ [''FF'', ''junk'', '' 0a''])"
    by (simp add: s is_directive_def startswith_def)
  have h: "hex2_fullmatch ''FF''" "hex2_fullmatch ''0a''" "\<not> hex2_fullmatch ''junk''"
    by (simp_all add: hex2_fullmatch_def is_hex_def)
  have r: "[''FF'', ''0a''] = filter hex2_fullmatch (map strip [''FF'', ''junk'', '' 0a''])"
    by (simp add: s h)
  have v: "int_of_digits 16 ''FF'' AND 0xFF = 255" "int_of_digits 16 ''0a'' AND 0xFF = 10"
    by (simp_all add: int_of_digits_def digit_val_def)
  have e': "startswith (strip ''ENCODING 65'') ''ENCODING ''" by (simp add: s e)
  have p': "parse_encoding (strip ''ENCODING 65'') = Some 65" by (simp add: s p)
  from parse_bdf_sixteen_bytes [OF e' p' s(2) s(3) d r, of "[''STARTCHAR A'']"]
  obtain g where g: "glyphs (bdf_run ([''STARTCHAR A''] @ [''ENCODING 65''] @ [''BBX 8 16 0 -4'']
        @ [''BITMAP''] @ [''FF'', ''junk'', '' 0a''] @ [''ENDCHAR''])) 65 = Some g"
      "length g = 16"
      "\<forall>j<16. g ! j = (if j < length [''FF'', ''0a''] then int_of_digits 16 ([''FF'', ''0a''] ! j) AND 0xFF else 0)"
    by blast
  from g(3) have "g ! 0 = 255" "g ! 1 = 10" "g ! 2 = 0" "g ! 15 = 0"
    using v by simp_all
  with g(1,2) e' p' show ?thesis by simp
qed

lemma after_last_Nil: "after_last P [] = []"
  by (simp add: after_last_def)

lemma after_last_snoc:
  "after_last P (xs @ [x]) = (if P x then [] else after_last P xs @ [x])"
  by (simp add: after_last_def)

lemma hex2_not_directive: "hex2_fullmatch line \<Longrightarrow> \<not> is_directive line"
  by (auto simp add: hex2_fullmatch_def is_directive_def startswith_def)

lemma encoding_not_hex2: "startswith line ''ENCODING '' \<Longrightarrow> \<not> hex2_fullmatch line"
  by (auto simp add: hex2_fullmatch_def startswith_def)

lemma encoding_not_keyword:
  "startswith line ''ENCODING '' \<Longrightarrow> line \<noteq> ''BITMAP'' \<and> line \<noteq> ''ENDCHAR''"
  by (auto simp add: startswith_def)

text \<open>The variables of the loop, read off the lines it has seen.\<close>

lemma bdf_run_lines:
  "enc (bdf_run ls) = pending_code ls \<and> collecting (bdf_run ls) = bitmap_open ls
   \<and> (bitmap_open ls \<longrightarrow> bitmap_rows (bdf_run ls) = collected_rows ls)"
proof (induction ls rule: rev_induct)
  case Nil
  show ?case
    by (simp add: bdf_run_def bdf_init_def pending_code_def bitmap_open_def since_endchar_def
        after_last_Nil)
next
  case (snoc l ls)
  let ?line = "strip l"
  consider (encoding) "startswith ?line ''ENCODING ''"
    | (bitmap) "?line = ''BITMAP''"
    | (endchar) "?line = ''ENDCHAR''"
    | (other) "\<not> is_directive ?line"
    by (auto simp add: is_directive_def)
  then show ?case
  proof cases
    case encoding
    with encoding_not_keyword [OF encoding] encoding_not_hex2 [OF encoding] snoc show ?thesis
      by (simp add: bdf_run_snoc bdf_step_ENCODING pending_code_def bitmap_open_def
          collected_rows_def since_endchar_def after_last_snoc)
  next
    case bitmap
    with snoc show ?thesis
      by (simp add: bdf_run_snoc bdf_step_BITMAP pending_code_def bitmap_open_def
          collected_rows_def since_endchar_def after_last_snoc after_last_Nil startswith_def)
  next
    case endchar
    then show ?thesis
      by (simp add: bdf_run_snoc bdf_step_ENDCHAR pending_code_def bitmap_open_def
          collected_rows_def since_endchar_def after_last_snoc)
  next
    case other
    then have "\<not> startswith ?line ''ENCODING ''" "?line \<noteq> ''BITMAP''" "?line \<noteq> ''ENDCHAR''"
      by (simp_all add: is_directive_def)
    with other snoc show ?thesis
      by (simp add: bdf_run_snoc bdf_step_other pending_code_def bitmap_open_def
          collected_rows_def since_endchar_def after_last_snoc)
  qed
qed

text \<open>
  Claim C5, as amended. At a line that, stripped, is \<open>ENDCHAR\<close>, a glyph is stored exactly
  when, among the lines since the previous \<open>ENDCHAR\<close> line, the last \<open>ENCODING\<close> line gave
  a code point and there is a \<open>BITMAP\<close> line. It is stored under that code point, and it
  is made of the rows after the last such \<open>BITMAP\<close> line, cut to 16 rows or padded with
  zeros. In every other case the dictionary is left as it is.
\<close>

theorem bdf_endchar_stores:
  assumes "strip e = ''ENDCHAR''"
  shows "glyphs (bdf_run (pre @ [e])) =
     (case pending_code pre of
        Some cp \<Rightarrow>
          if bitmap_open pre
          then (glyphs (bdf_run pre))(cp \<mapsto> glyph_of_rows (collected_rows pre))
          else glyphs (bdf_run pre)
      | None \<Rightarrow> glyphs (bdf_run pre))"
  using assms bdf_run_lines [of pre]
  by (auto simp add: bdf_run_snoc bdf_step_ENDCHAR split: option.splits)

theorem bdf_endchar_stores_witness:
  "strip ''ENDCHAR'' = ''ENDCHAR''
   \<and> glyphs (bdf_run ([''ENCODING 65'', ''BITMAP'', ''FF''] @ [''ENDCHAR''])) 65
       = Some (255 # replicate 15 0)
   \<and> glyphs (bdf_run ([''BITMAP'', ''FF'', ''ENCODING 65''] @ [''ENDCHAR''])) 65
       = Some (255 # replicate 15 0)
   \<and> glyphs (bdf_run ([''ENCODING 65'', ''FF''] @ [''ENDCHAR''])) 65 = None"
proof -
  have p: "pending_code [''ENCODING 65'', ''BITMAP'', ''FF''] = Some 65"
    "pending_code [''BITMAP'', ''FF'', ''ENCODING 65''] = Some 65"
    "pending_code [''ENCODING 65'', ''FF''] = Some 65"
    by (simp_all add: pending_code_def since_endchar_def after_last_def sample_strips
        parse_encoding_65 startswith_def)
  have b: "bitmap_open [''ENCODING 65'', ''BITMAP'', ''FF'']"
    "bitmap_open [''BITMAP'', ''FF'', ''ENCODING 65'']"
    "\<not> bitmap_open [''ENCODING 65'', ''FF'']"
    by (simp_all add: bitmap_open_def since_endchar_def after_last_def sample_strips)
  have c: "collected_rows [''ENCODING 65'', ''BITMAP'', ''FF''] = [''FF'']"
    "collected_rows [''BITMAP'', ''FF'', ''ENCODING 65''] = [''FF'']"
    by (simp_all add: collected_rows_def since_endchar_def after_last_def sample_strips
        hex2_fullmatch_def is_hex_def)
  have g: "glyph_of_rows [''FF''] = 255 # replicate 15 0"
    by (simp add: glyph_of_rows_def int_of_digits_def digit_val_def)
  have e: "glyphs (bdf_run [''ENCODING 65'', ''FF'']) 65 = None"
    by (simp add: bdf_run_def bdf_init_def bdf_step_def sample_strips startswith_def Let_def
        hex2_fullmatch_def)
  show ?thesis
    using bdf_endchar_stores [OF sample_strips(1), of "[''ENCODING 65'', ''BITMAP'', ''FF'']"]
      bdf_endchar_stores [OF sample_strips(1), of "[''BITMAP'', ''FF'', ''ENCODING 65'']"]
      bdf_endchar_stores [OF sample_strips(1), of "[''ENCODING 65'', ''FF'']"]
    by (simp add: sample_strips p b c g e)
qed

text \<open>
  The claim as first stated, that the glyph is dropped only when no code point is
  pending, fails for a definition without a \<open>BITMAP\<close> line: the code point 65 is parsed,
  and nothing is stored under it.
\<close>

theorem bdf_endchar_counterexample:
  "enc (bdf_run [''ENCODING 65'']) = Some 65
   \<and> pending_code [''ENCODING 65''] = Some 65
   \<and> glyphs (bdf_run [''ENCODING 65'', ''ENDCHAR'']) 65 = None"
  by (simp add: bdf_run_def bdf_init_def bdf_step_def pending_code_def since_endchar_def
      after_last_def sample_strips startswith_def parse_encoding_65 Let_def)

text \<open>
  Claim C10. A line that, stripped, is \<open>ENDCHAR\<close> clears the pending code point, the
  collection flag and the collected rows, and the lines after it change no entry of the
  dictionary as long as none of them is an \<open>ENCODING\<close> line: a later block without a code
  point of its own is not stored under the code point of the definition before it.
\<close>

theorem bdf_endchar_clears:
  assumes "strip e = ''ENDCHAR''"
    and "list_all (\<lambda>l. \<not> startswith (strip l) ''ENCODING '') block"
  shows "enc (bdf_run (pre @ [e])) = None \<and> \<not> collecting (bdf_run (pre @ [e]))
     \<and> bitmap_rows (bdf_run (pre @ [e])) = []
     \<and> glyphs (bdf_run (pre @ [e] @ block)) = glyphs (bdf_run (pre @ [e]))"
proof -
  have clear: "enc (bdf_run (pre @ [e])) = None" "\<not> collecting (bdf_run (pre @ [e]))"
    "bitmap_rows (bdf_run (pre @ [e])) = []"
    using assms(1) by (simp_all add: bdf_run_snoc bdf_step_ENDCHAR)
  have "bdf_run (pre @ [e] @ block) = foldl bdf_step (bdf_run (pre @ [e])) block"
    by (simp add: bdf_run_def)
  with foldl_no_enc [OF clear(1) assms(2)] clear show ?thesis by simp
qed

theorem bdf_endchar_clears_witness:
  "strip ''ENDCHAR'' = ''ENDCHAR''
   \<and> glyphs (bdf_run ([''ENCODING 65'', ''BITMAP'', ''FF''] @ [''ENDCHAR'']
        @ [''BITMAP'', ''0F'', ''ENDCHAR''])) 65 = Some (255 # replicate 15 0)"
proof -
  have s: "strip ''ENDCHAR'' = ''ENDCHAR''" by (simp add: strip_def isspace_def)
  have b: "list_all (\<lambda>l. \<not> startswith (strip l) ''ENCODING '') [''BITMAP'', ''0F'', ''ENDCHAR'']"
    by (simp add: strip_def isspace_def startswith_def)
  have g: "glyphs (bdf_run ([''ENCODING 65'', ''BITMAP'', ''FF''] @ [''ENDCHAR''])) 65
      = Some (255 # replicate 15 0)"
    by (simp add: bdf_run_def bdf_init_def bdf_step_def strip_def isspace_def startswith_def
        parse_encoding_def py_split_def py_int_def isdigit_def int_of_digits_def digit_val_def
        hex2_fullmatch_def is_hex_def pad_rows_eq Let_def)
  show ?thesis
    using bdf_endchar_clears [OF s b, of "[''ENCODING 65'', ''BITMAP'', ''FF'']"] g
    by (simp add: s)
qed

section \<open>The source descriptor\<close>

lemma notes_fallback_iff:
  "notes_fallback (s @ '' (BDF)'' @ (if b then '' + ASM fallback'' else [])) = b"
  by (simp add: notes_fallback_def endswith_def startswith_def)

lemma contributed_needs_table:
  "fallback_contributed bdf_glyphs asm_fallback \<Longrightarrow> asm_fallback \<noteq> None"
  by (auto simp add: fallback_contributed_def from_fallback_def truthy_def list_ex_iff
      split: option.splits)

text \<open>
  Claim C6, as amended. With a BDF source, when neither parser raises, the descriptor
  notes the fallback exactly when the legacy parser returned a table for the fallback
  path, whether or not a glyph of the table comes from it. So it is noted whenever the
  fallback gave a glyph, and it is not noted when there is no fallback file.
\<close>

theorem descriptor_notes_fallback:
  assumes "lower (suffix src_path) = ''.bdf''"
    and "parse_bdf files src_path = Inr bdf_glyphs"
    and "parse_asm files maybe_asm = Inr asm_fallback"
  shows "\<exists>table desc. build_glyph_table files src_path maybe_asm = Inr (table, desc)
      \<and> notes_fallback desc = (asm_fallback \<noteq> None)
      \<and> (fallback_contributed bdf_glyphs asm_fallback \<longrightarrow> notes_fallback desc)
      \<and> (files maybe_asm = None \<longrightarrow> \<not> notes_fallback desc)"
proof -
  let ?desc = "str_path src_path @ '' (BDF)''
      @ (if asm_fallback \<noteq> None then '' + ASM fallback'' else [])"
  have n: "notes_fallback ?desc = (asm_fallback \<noteq> None)"
    by (rule notes_fallback_iff)
  have absent: "files maybe_asm = None \<longrightarrow> \<not> notes_fallback ?desc"
    unfolding n using assms(3) by (auto simp add: parse_asm_absent)
  have contributed: "fallback_contributed bdf_glyphs asm_fallback \<longrightarrow> notes_fallback ?desc"
    unfolding n using contributed_needs_table [of bdf_glyphs asm_fallback] by blast
  from build_bdf [OF assms] n contributed absent show ?thesis
    by (intro exI conjI)
qed

theorem descriptor_notes_fallback_witness:
  "lower (suffix (Path ''a.bdf'')) = ''.bdf''
   \<and> (\<exists>table. build_glyph_table sample_files (Path ''a.bdf'') (Path ''none.asm'')
          = Inr (table, ''a.bdf (BDF)''))
   \<and> \<not> notes_fallback ''a.bdf (BDF)''
   \<and> (\<exists>table. build_glyph_table sample_files (Path ''a.bdf'') (Path ''spleen.asm'')
          = Inr (table, ''a.bdf (BDF) + ASM fallback''))
   \<and> notes_fallback ''a.bdf (BDF) + ASM fallback''"
proof -
  have d: "str_path (Path ''a.bdf'') = ''a.bdf''"
    by (simp add: sample_paths str_path_def)
  obtain t where t: "parse_asm sample_files (Path ''spleen.asm'') = Inr (Some t)"
    by (simp add: parse_asm_sample del: upt_Suc)
  have b1: "build_glyph_table sample_files (Path ''a.bdf'') (Path ''none.asm'')
      = Inr (map (table_entry [65 \<mapsto> 255 # replicate 15 0] None) [0..<256], ''a.bdf (BDF)'')"
    by (simp add: build_bdf [OF sample_suffixes(2) parse_bdf_A parse_asm_none] d del: upt_Suc)
  have b2: "build_glyph_table sample_files (Path ''a.bdf'') (Path ''spleen.asm'')
      = Inr (map (table_entry [65 \<mapsto> 255 # replicate 15 0] (Some t)) [0..<256],
             ''a.bdf (BDF) + ASM fallback'')"
    by (simp add: build_bdf [OF sample_suffixes(2) parse_bdf_A t] d del: upt_Suc)
  show ?thesis
    using descriptor_notes_fallback [OF sample_suffixes(2) parse_bdf_A parse_asm_none]
      descriptor_notes_fallback [OF sample_suffixes(2) parse_bdf_A t]
    by (simp add: sample_suffixes b1 b2 sample_files_at del: upt_Suc)
qed

text \<open>
  The claim as first stated, that the fallback is noted only if it gave at least one glyph,
  fails when the BDF text defines all 256 code points and the fallback file holds a full
  table: the descriptor notes the fallback, and no glyph comes from it.
\<close>

theorem descriptor_counterexample:
  "map_sum id snd (build_glyph_table sample_files (Path ''spleen.bdf'') (Path ''spleen.asm''))
     = Inr ''spleen.bdf (BDF) + ASM fallback''
   \<and> notes_fallback ''spleen.bdf (BDF) + ASM fallback''
   \<and> parse_bdf sample_files (Path ''spleen.bdf'') = Inr (glyphs (bdf_run (splitlines bdf_full_text)))
   \<and> map_sum id (fallback_contributed (glyphs (bdf_run (splitlines bdf_full_text))))
        (parse_asm sample_files (Path ''spleen.asm'')) = Inr False"
proof -
  have p: "parse_bdf sample_files (Path ''spleen.bdf'') = Inr (glyphs (bdf_run (splitlines bdf_full_text)))"
    by (simp add: parse_bdf_def read_text_def sample_files_at)
  obtain t where t: "parse_asm sample_files (Path ''spleen.asm'') = Inr (Some t)"
    by (simp add: parse_asm_sample del: upt_Suc)
  have d: "str_path (Path ''spleen.bdf'') = ''spleen.bdf''"
    by (simp add: sample_paths str_path_def)
  have 1: "map_sum id snd (build_glyph_table sample_files (Path ''spleen.bdf'') (Path ''spleen.asm''))
     = Inr ''spleen.bdf (BDF) + ASM fallback''"
    by (simp add: build_bdf [OF sample_suffixes(1) p t] d del: upt_Suc)
  have 2: "notes_fallback ''spleen.bdf (BDF) + ASM fallback''"
    using notes_fallback_iff [of "''spleen.bdf''" True] by simp
  have 3: "\<not> fallback_contributed (glyphs (bdf_run (splitlines bdf_full_text))) (Some t)"
    using bdf_full_defined
    by (auto simp add: fallback_contributed_def from_fallback_def list_ex_iff)
  from 1 2 p 3 show ?thesis by (simp add: t)
qed

section \<open>Runs of the program\<close>

text \<open>
  Claim C7. When the source has the extension \<open>.asm\<close> and the legacy parser returns no
  table for it, the run ends with exit status 1 and the message of the \<open>SystemExit\<close>, and
  the file system is as it was: the output file is never opened.
\<close>

theorem main_asm_incomplete:
  assumes "3 \<le> length argv"
    and "lower (suffix (Path (argv ! 1))) = ''.asm''"
    and "parse_asm (files_of w) (Path (argv ! 1)) = Inr None"
  shows "status (main argv w) = 1
     \<and> raised (main argv w) = Some (SystemExit ''Failed to parse ASM font table'')
     \<and> files_after (main argv w) = files_of w"
  using assms by (simp add: main_def build_glyph_table_def Let_def)

theorem main_asm_incomplete_witness:
  "parse_asm (files_of sample_world) (Path ([''gen_spleen.py'', ''short.asm'', ''out.c''] ! 1))
     = Inr None
   \<and> status (main [''gen_spleen.py'', ''short.asm'', ''out.c''] sample_world) = 1
   \<and> files_after (main [''gen_spleen.py'', ''short.asm'', ''out.c''] sample_world) (Path ''out.c'')
       = None"
  using main_asm_incomplete [of "[''gen_spleen.py'', ''short.asm'', ''out.c'']" sample_world]
  by (simp add: sample_suffixes parse_asm_short sample_files_at sample_world_def)

text \<open>
  Claim C8. When the extension of the source is neither \<open>.bdf\<close> nor \<open>.asm\<close>, the run ends
  with exit status 1 and a message that names the extension, and the file system is as it
  was.
\<close>

theorem main_unsupported_extension:
  assumes "3 \<le> length argv"
    and "lower (suffix (Path (argv ! 1))) \<noteq> ''.bdf''"
    and "lower (suffix (Path (argv ! 1))) \<noteq> ''.asm''"
  shows "status (main argv w) = 1
     \<and> raised (main argv w)
         = Some (SystemExit (''Unsupported source extension: '' @ lower (suffix (Path (argv ! 1)))))
     \<and> files_after (main argv w) = files_of w"
  using assms by (simp add: main_def build_glyph_table_def Let_def)

theorem main_unsupported_extension_witness:
  "lower (suffix (Path ([''gen_spleen.py'', ''font.txt'', ''out.c''] ! 1))) = ''.txt''
   \<and> status (main [''gen_spleen.py'', ''font.txt'', ''out.c''] sample_world) = 1
   \<and> raised (main [''gen_spleen.py'', ''font.txt'', ''out.c''] sample_world)
       = Some (SystemExit ''Unsupported source extension: .txt'')
   \<and> files_after (main [''gen_spleen.py'', ''font.txt'', ''out.c''] sample_world) (Path ''out.c'')
       = None"
  using main_unsupported_extension [of "[''gen_spleen.py'', ''font.txt'', ''out.c'']" sample_world]
  by (simp add: sample_suffixes sample_files_at sample_world_def)

end
